theory Spec2Isabelle
  imports Main "HOL-Library.Sublist"
begin

section \<open>Common vocabulary\<close>

text \<open>
  A JavaScript exception is modelled by the message of the thrown \<open>Error\<close>. A call that
  may throw returns \<open>error + 'a\<close>, with \<open>Inl\<close> for the exception.
\<close>

type_synonym error = string

section \<open>The Gemini adapter: \<open>src/api/providers/gemini.ts\<close>\<close>

subsection \<open>Construction\<close>

text \<open>
  \<open>ApiHandlerOptions\<close> is declared in \<open>shared/api\<close>; the handler reads two optional string
  fields of it. An optional field that is \<open>undefined\<close> is \<open>None\<close>.
\<close>

record ApiHandlerOptions =
  geminiApiKey :: "string option"
  apiModelId :: "string option"

text \<open>
  The handler stores the options and the client of the vendor's SDK; the client is
  represented by the key it was created with. \<open>new GoogleGenerativeAI(key)\<close> only
  stores its argument and does not throw.
\<close>

record GeminiHandler =
  options :: ApiHandlerOptions
  client :: string

text \<open>
  The constructor. \<open>!options.geminiApiKey\<close> is JavaScript's negated truthiness: it holds
  for \<open>undefined\<close> and for the empty string.
\<close>

definition GeminiHandler_constructor :: "ApiHandlerOptions \<Rightarrow> error + GeminiHandler" where
  "GeminiHandler_constructor opts =
     (case geminiApiKey opts of
        None \<Rightarrow> Inl ''API key is required for Google Gemini''
      | Some key \<Rightarrow>
          (if key = [] then Inl ''API key is required for Google Gemini''
           else Inr \<lparr>options = opts, client = key\<rparr>))"

subsection \<open>Model resolution\<close>

text \<open>
  \<open>geminiModels\<close> and \<open>geminiDefaultModelId\<close> are imported from \<open>shared/api\<close> and are
  parameters here. \<open>geminiModels\<close> is a JavaScript object used as a table: the source
  tests membership with the \<open>in\<close> operator and reads with \<open>geminiModels[id]\<close>. Both follow
  the prototype chain, so an object is its own properties together with the names it
  inherits. A read gives the own value, or the inherited member, or \<open>undefined\<close>.
\<close>

record 'info js_object =
  own :: "string \<rightharpoonup> 'info"
  inherited :: "string list"

datatype 'info js_value = Own 'info | Inherited string | Undefined

definition js_in :: "string \<Rightarrow> 'info js_object \<Rightarrow> bool" where
  "js_in key obj = (own obj key \<noteq> None \<or> key \<in> set (inherited obj))"

definition js_get :: "'info js_object \<Rightarrow> string \<Rightarrow> 'info js_value" where
  "js_get obj key =
     (case own obj key of
        Some v \<Rightarrow> Own v
      | None \<Rightarrow> (if key \<in> set (inherited obj) then Inherited key else Undefined))"

text \<open>
  The members every object written as a literal inherits from \<open>Object.prototype\<close>
  (ECMAScript, sections 20.1.3 and B.2.2).
\<close>

definition Object_prototype :: "string list" where
  "Object_prototype =
     [''constructor'', ''hasOwnProperty'', ''isPrototypeOf'', ''propertyIsEnumerable'',
      ''toLocaleString'', ''toString'', ''valueOf'', ''__proto__'',
      ''__defineGetter__'', ''__defineSetter__'', ''__lookupGetter__'', ''__lookupSetter__'']"

definition object_literal :: "(string \<rightharpoonup> 'info) \<Rightarrow> 'info js_object" where
  "object_literal props = \<lparr>own = props, inherited = Object_prototype\<rparr>"

record 'info model =
  model_id :: string
  model_info :: "'info js_value"

text \<open>
  \<open>getModel\<close>: \<open>modelId && modelId in geminiModels\<close> needs a model identifier that is
  neither \<open>undefined\<close> nor the empty string.
\<close>

definition getModel :: "'info js_object \<Rightarrow> string \<Rightarrow> GeminiHandler \<Rightarrow> 'info model" where
  "getModel geminiModels geminiDefaultModelId h =
     (let default = \<lparr>model_id = geminiDefaultModelId,
                      model_info = js_get geminiModels geminiDefaultModelId\<rparr>
      in case apiModelId (options h) of
           None \<Rightarrow> default
         | Some modelId \<Rightarrow>
             (if modelId \<noteq> [] \<and> js_in modelId geminiModels
              then \<lparr>model_id = modelId, model_info = js_get geminiModels modelId\<rparr>
              else default))"

subsection \<open>The backend's answer\<close>

text \<open>
  What the vendor's SDK hands to \<open>createMessage\<close>. A chunk is represented by what its
  method \<open>text()\<close> does: it throws, or it returns a string (\<open>None\<close> for a value that is
  not there). The response carries optional candidates, each with an optional finish
  reason, and optional usage counters.
\<close>

type_synonym chunk = "error + string option"

record UsageMetadata =
  promptTokenCount :: "int option"
  candidatesTokenCount :: "int option"

record Candidate =
  finishReason :: "string option"

record GenerateContentResponse =
  candidates :: "Candidate list option"
  usageMetadata :: "UsageMetadata option"

text \<open>
  \<open>result.stream\<close> delivers the chunks of \<open>stream\<close> in order and then either ends or
  rejects (\<open>stream_rejects\<close>, a transport fault); \<open>result.response\<close> is a promise that
  rejects, or resolves to a response or to nothing.
\<close>

record GenerateContentStreamResult =
  stream :: "chunk list"
  stream_rejects :: "error option"
  response :: "error + GenerateContentResponse option"

subsection \<open>The generator \<open>createMessage\<close>\<close>

text \<open>
  \<open>ApiStream\<close> yields text chunks and usage chunks. A run of the generator is the list of
  what it yielded and the exception it ended with, if any.
\<close>

datatype ApiStreamChunk = ApiStreamTextChunk string | ApiStreamUsageChunk int int

record generator_run =
  yielded :: "ApiStreamChunk list"
  thrown :: "error option"

text \<open>
  The \<open>for await\<close> loop with its local \<open>hasError\<close>. A chunk whose \<open>text()\<close> throws sets the
  flag and rethrows at once, which leaves the loop; a falsy text is skipped; any other
  text is yielded after \<open>unescapeGeminiContent\<close> (imported from \<open>transform/gemini-format\<close>,
  a parameter here). The result is the yields and either the exception or the value of
  \<open>hasError\<close> at the end of the loop.
\<close>

fun stream_loop :: "(string \<Rightarrow> string) \<Rightarrow> chunk list \<Rightarrow> bool \<Rightarrow> ApiStreamChunk list \<times> (error + bool)" where
  "stream_loop unescapeGeminiContent [] hasError = ([], Inr hasError)"
| "stream_loop unescapeGeminiContent (Inl err # rest) hasError = ([], Inl err)"
| "stream_loop unescapeGeminiContent (Inr None # rest) hasError =
     stream_loop unescapeGeminiContent rest hasError"
| "stream_loop unescapeGeminiContent (Inr (Some text) # rest) hasError =
     (if text \<noteq> []
      then (case stream_loop unescapeGeminiContent rest hasError of
              (ys, r) \<Rightarrow> (ApiStreamTextChunk (unescapeGeminiContent text) # ys, r))
      else stream_loop unescapeGeminiContent rest hasError)"

text \<open>\<open>response.candidates?.[0]?.finishReason\<close>\<close>

definition finishReason_of :: "GenerateContentResponse \<Rightarrow> string option" where
  "finishReason_of resp =
     (case candidates resp of
        None \<Rightarrow> None
      | Some [] \<Rightarrow> None
      | Some (candidate # _) \<Rightarrow> finishReason candidate)"

text \<open>The usage chunk: \<open>response.usageMetadata?.promptTokenCount ?? 0\<close> and its sibling.\<close>

definition usage_of :: "GenerateContentResponse \<Rightarrow> ApiStreamChunk" where
  "usage_of resp =
     ApiStreamUsageChunk
       (case usageMetadata resp of
          None \<Rightarrow> 0
        | Some m \<Rightarrow> (case promptTokenCount m of None \<Rightarrow> 0 | Some n \<Rightarrow> n))
       (case usageMetadata resp of
          None \<Rightarrow> 0
        | Some m \<Rightarrow> (case candidatesTokenCount m of None \<Rightarrow> 0 | Some n \<Rightarrow> n))"

text \<open>
  The statements after the loop: the response, the finish reason, the usage chunk.
  \<open>ys\<close> is what the loop has yielded; \<open>resp\<close> and \<open>reason\<close> are the source's locals
  \<open>response\<close> and \<open>finishReason\<close>.
\<close>

definition after_stream :: "ApiStreamChunk list \<Rightarrow> error + GenerateContentResponse option \<Rightarrow> generator_run" where
  "after_stream ys awaited =
     (case awaited of
        Inl err \<Rightarrow> \<lparr>yielded = ys, thrown = Some err\<rparr>
      | Inr None \<Rightarrow> \<lparr>yielded = ys, thrown = Some ''No response received from Gemini API''\<rparr>
      | Inr (Some resp) \<Rightarrow>
          (let reason = finishReason_of resp
           in if reason = Some ''SAFETY''
              then \<lparr>yielded = ys, thrown = Some ''Content generation was blocked for safety reasons''\<rparr>
              else if reason = Some ''RECITATION''
              then \<lparr>yielded = ys,
                    thrown = Some ''Content generation was blocked due to potential copyright issues''\<rparr>
              else if reason = Some ''OTHER''
              then \<lparr>yielded = ys, thrown = Some ''Content generation was blocked for other reasons''\<rparr>
              else \<lparr>yielded = ys @ [usage_of resp], thrown = None\<rparr>))"

text \<open>
  \<open>createMessage\<close>. The statements before the \<open>try\<close> build the model object from
  \<open>getModel().id\<close> and the system prompt and do not throw. The argument \<open>call\<close> is the
  outcome of
  \<open>await model.generateContentStream(...)\<close> for the request built from the system prompt
  and the messages: a rejection (also an exception while the request is built, inside
  the same \<open>try\<close>) or a stream result. The outer \<open>catch\<close> logs and rethrows, so every
  exception of the body ends the run.
\<close>

definition createMessage :: "(string \<Rightarrow> string) \<Rightarrow> error + GenerateContentStreamResult \<Rightarrow> generator_run" where
  "createMessage unescapeGeminiContent call =
     (case call of
        Inl err \<Rightarrow> \<lparr>yielded = [], thrown = Some err\<rparr>
      | Inr result \<Rightarrow>
          (case stream_loop unescapeGeminiContent (stream result) False of
             (ys, Inl err) \<Rightarrow> \<lparr>yielded = ys, thrown = Some err\<rparr>
           | (ys, Inr hasError) \<Rightarrow>
               (case stream_rejects result of
                  Some err \<Rightarrow> \<lparr>yielded = ys, thrown = Some err\<rparr>
                | None \<Rightarrow>
                    (if hasError
                     then \<lparr>yielded = ys, thrown = Some ''Stream processing encountered errors''\<rparr>
                     else after_stream ys (response result)))))"

subsection \<open>The event sequence a caller observes\<close>

text \<open>
  The events of the canonical protocol: each yield is an event, and the exception that
  ends a run is the terminal \<open>Error\<close> event (it carries the thrown exception; the code
  attaches no kind to it).
\<close>

datatype StreamEvent = TextChunk string | Usage int int | Error error

fun to_event :: "ApiStreamChunk \<Rightarrow> StreamEvent" where
  "to_event (ApiStreamTextChunk text) = TextChunk text"
| "to_event (ApiStreamUsageChunk inputTokens outputTokens) = Usage inputTokens outputTokens"

definition events :: "generator_run \<Rightarrow> StreamEvent list" where
  "events run =
     map to_event (yielded run) @ (case thrown run of None \<Rightarrow> [] | Some err \<Rightarrow> [Error err])"

fun is_terminal :: "StreamEvent \<Rightarrow> bool" where
  "is_terminal (TextChunk text) = False"
| "is_terminal (Usage inputTokens outputTokens) = True"
| "is_terminal (Error err) = True"

fun is_Usage :: "StreamEvent \<Rightarrow> bool" where
  "is_Usage (Usage inputTokens outputTokens) = True"
| "is_Usage ev = False"

fun is_Error :: "StreamEvent \<Rightarrow> bool" where
  "is_Error (Error err) = True"
| "is_Error ev = False"

section \<open>The retry wrapper\<close>

text \<open>
  The decorator \<open>withRetry\<close> that wraps \<open>createMessage\<close> is imported from \<open>api/retry\<close>,
  which is not among the sources. The definitions of this section follow sections 4.3
  and 7 of the specification.
\<close>

text \<open>
  Modelled from the spec: the error taxonomy of section 7 (the source of \<open>api/retry\<close> is
  missing). A failure is classified by a mapping the adapter supplies.
\<close>

datatype ErrorKind =
  Fatal_Auth | Fatal_BadRequest | Fatal_ContentPolicy
| Retryable_RateLimited | Retryable_ServerFault | Retryable_Transport
| Protocol_Corruption

text \<open>
  Modelled from the spec: the classification table of section 4.3 (the source of
  \<open>api/retry\<close> is missing). Rate limits, server-side faults and transport faults are
  retryable; authentication, bad-request and content-policy failures and protocol
  corruption are not.
\<close>

fun retryable :: "ErrorKind \<Rightarrow> bool" where
  "retryable Retryable_RateLimited = True"
| "retryable Retryable_ServerFault = True"
| "retryable Retryable_Transport = True"
| "retryable kind = False"

text \<open>
  The outcome of a wrapped call: the events forwarded to the caller and the number of
  attempts made.
\<close>

record wrapped_run =
  forwarded :: "StreamEvent list"
  attempts :: nat

text \<open>
  Modelled from the spec: the retry loop of section 4.3 (the source of \<open>api/retry\<close> is
  missing). \<open>generate n\<close> is the run of the adapter's generator at attempt \<open>n\<close>, counted
  from 0; \<open>budget\<close> is the number of attempts still allowed. Attempts are made one after
  the other. The wrapper passes the events of an attempt through to the caller as they
  arrive. A failure is retried only when no event of that attempt has been forwarded,
  its kind is retryable and the budget is not exhausted; any other failure is forwarded
  as the terminal \<open>Error\<close>. The waiting time between attempts has no influence on the
  events or on the number of attempts and is left out.
\<close>

fun retry_from :: "(error \<Rightarrow> ErrorKind) \<Rightarrow> (nat \<Rightarrow> generator_run) \<Rightarrow> nat \<Rightarrow> nat \<Rightarrow> wrapped_run" where
  "retry_from classify generate attempt 0 = \<lparr>forwarded = [], attempts = attempt\<rparr>"
| "retry_from classify generate attempt (Suc budget) =
     (let run = generate attempt
      in case thrown run of
           None \<Rightarrow> \<lparr>forwarded = events run, attempts = Suc attempt\<rparr>
         | Some err \<Rightarrow>
             (if yielded run = [] \<and> retryable (classify err) \<and> budget \<noteq> 0
              then retry_from classify generate (Suc attempt) budget
              else \<lparr>forwarded = events run, attempts = Suc attempt\<rparr>))"

text \<open>
  Modelled from the spec: the wrapper of section 4.3 (the source of \<open>api/retry\<close> is
  missing), with its configured maximum number of attempts.
\<close>

definition withRetry :: "(error \<Rightarrow> ErrorKind) \<Rightarrow> nat \<Rightarrow> (nat \<Rightarrow> generator_run) \<Rightarrow> wrapped_run" where
  "withRetry classify maxAttempts generate = retry_from classify generate 0 maxAttempts"

section \<open>The file-access gate: \<open>src/core/ignore/ClineIgnoreController.ts\<close>\<close>

text \<open>
  The controller keeps the working directory, the current instance of the \<open>ignore\<close>
  library and the flag \<open>clineIgnoreExists\<close>. The library is not part of the repository:
  the instance is represented by its method \<open>ignores\<close>, which either answers or throws
  (the source's comment: it throws for paths outside the working directory).
  The path functions of Node (\<open>path.resolve\<close>, \<open>path.relative\<close>) and the repository's
  string extension \<open>toPosix\<close> are parameters, collected in \<open>path_ops\<close>.
\<close>

record path_ops =
  path_resolve :: "string \<Rightarrow> string \<Rightarrow> string"
  path_relative :: "string \<Rightarrow> string \<Rightarrow> string"
  toPosix :: "string \<Rightarrow> string"

record ClineIgnoreController =
  cwd :: string
  ignoreInstance :: "string \<Rightarrow> error + bool"
  clineIgnoreExists :: bool

text \<open>
  \<open>validateAccess\<close>: the early return when no \<open>.clineignore\<close> exists, then the \<open>try\<close> block;
  the \<open>catch\<close> branch returns \<open>true\<close>.
\<close>

definition validateAccess :: "path_ops \<Rightarrow> ClineIgnoreController \<Rightarrow> string \<Rightarrow> bool" where
  "validateAccess P c filePath =
     (if \<not> clineIgnoreExists c then True
      else
        (let absolutePath = path_resolve P (cwd c) filePath;
             relativePath = toPosix P (path_relative P (cwd c) absolutePath)
         in case ignoreInstance c relativePath of
              Inl err \<Rightarrow> True
            | Inr ignored \<Rightarrow> \<not> ignored))"

text \<open>
  \<open>filterPaths\<close>: the chain \<open>map\<close>, \<open>filter\<close>, \<open>map\<close> of the source. \<open>validateAccess\<close> catches
  every exception itself, so nothing in the \<open>try\<close> block throws and the \<open>catch\<close> branch
  (which returns the empty array) is never taken.
\<close>

definition filterPaths :: "path_ops \<Rightarrow> ClineIgnoreController \<Rightarrow> string list \<Rightarrow> string list" where
  "filterPaths P c paths =
     map fst (filter snd (map (\<lambda>p. (p, validateAccess P c p)) paths))"

section \<open>Properties of the Gemini adapter\<close>

subsection \<open>Construction\<close>

text \<open>
  C7, as the code has it. Construction fails at once, with the error of the constructor,
  exactly when \<open>geminiApiKey\<close> is absent or is the empty string; for every other options
  value it succeeds and the handler holds the options and a client for the key.
\<close>

theorem GeminiHandler_constructor_fails_fast:
  "GeminiHandler_constructor opts =
     (if geminiApiKey opts = None \<or> geminiApiKey opts = Some []
      then Inl ''API key is required for Google Gemini''
      else Inr \<lparr>options = opts, client = the (geminiApiKey opts)\<rparr>)"
  by (simp add: GeminiHandler_constructor_def split: option.splits)

text \<open>
  The claim as stated fails for a key that is present and empty: the options carry a
  key, and construction throws.
\<close>

theorem GeminiHandler_constructor_empty_key_counterexample:
  "geminiApiKey \<lparr>geminiApiKey = Some [], apiModelId = None\<rparr> \<noteq> None \<and>
   GeminiHandler_constructor \<lparr>geminiApiKey = Some [], apiModelId = None\<rparr>
     = Inl ''API key is required for Google Gemini'' \<and>
   \<not> (\<forall>opts. geminiApiKey opts \<noteq> None \<longrightarrow> (\<exists>h. GeminiHandler_constructor opts = Inr h))"
proof -
  have "GeminiHandler_constructor \<lparr>geminiApiKey = Some [], apiModelId = None\<rparr>
     = Inl ''API key is required for Google Gemini''"
    by (simp add: GeminiHandler_constructor_def)
  moreover from this
  have "\<not> (\<forall>opts. geminiApiKey opts \<noteq> None \<longrightarrow> (\<exists>h. GeminiHandler_constructor opts = Inr h))"
    by (auto intro!: exI [of _ "\<lparr>geminiApiKey = Some [], apiModelId = None\<rparr>"])
  ultimately show ?thesis by simp
qed

subsection \<open>Model resolution\<close>

text \<open>
  \<open>getModel\<close> is a total function of the two tables and the handler. For an identifier
  that is not a name inherited by the table it answers as a lookup with a default
  should: the own entry if there is one (and the identifier is not empty), the default
  otherwise; so does it for an absent identifier.
\<close>

lemma getModel_outside_prototype:
  assumes "apiModelId (options h) = Some modelId" and "modelId \<notin> set (inherited geminiModels)"
  shows "getModel geminiModels geminiDefaultModelId h =
     (case own geminiModels modelId of
        Some info \<Rightarrow>
          (if modelId \<noteq> [] then \<lparr>model_id = modelId, model_info = Own info\<rparr>
           else \<lparr>model_id = geminiDefaultModelId,
                 model_info = js_get geminiModels geminiDefaultModelId\<rparr>)
      | None \<Rightarrow> \<lparr>model_id = geminiDefaultModelId,
                  model_info = js_get geminiModels geminiDefaultModelId\<rparr>)"
  using assms by (simp add: getModel_def js_in_def js_get_def split: option.splits)

lemma getModel_absent_id:
  "apiModelId (options h) = None \<Longrightarrow>
   getModel geminiModels geminiDefaultModelId h =
     \<lparr>model_id = geminiDefaultModelId, model_info = js_get geminiModels geminiDefaultModelId\<rparr>"
  by (simp add: getModel_def)

text \<open>
  The registry-default scenario of the specification, on a table with one model (the
  descriptor is represented by its \<open>maxTokens\<close>).
\<close>

lemma getModel_unknown_example:
  "getModel (object_literal [''gemini-2.0-flash-001'' \<mapsto> (8192::nat)]) ''gemini-2.0-flash-001''
     \<lparr>options = \<lparr>geminiApiKey = Some ''key'', apiModelId = Some ''unknown-model-xyz''\<rparr>, client = ''key''\<rparr>
   = \<lparr>model_id = ''gemini-2.0-flash-001'', model_info = Own 8192\<rparr>"
  by (simp add: getModel_def js_in_def js_get_def object_literal_def Object_prototype_def)

text \<open>
  C6 says that every unknown identifier resolves to the default descriptor. The code
  tests \<open>modelId in geminiModels\<close>, which is also true for the names an object literal
  inherits. For the identifier \<open>constructor\<close>, which is not a model of the table,
  \<open>getModel\<close> does not return the default descriptor: it returns the identifier itself
  with the inherited member in place of a descriptor.
\<close>

theorem getModel_inherited_name_not_default:
  "getModel (object_literal [''gemini-2.0-flash-001'' \<mapsto> (8192::nat)]) ''gemini-2.0-flash-001''
     \<lparr>options = \<lparr>geminiApiKey = Some ''key'', apiModelId = Some ''constructor''\<rparr>, client = ''key''\<rparr>
   = \<lparr>model_id = ''constructor'', model_info = Inherited ''constructor''\<rparr> \<and>
   getModel (object_literal [''gemini-2.0-flash-001'' \<mapsto> (8192::nat)]) ''gemini-2.0-flash-001''
     \<lparr>options = \<lparr>geminiApiKey = Some ''key'', apiModelId = Some ''constructor''\<rparr>, client = ''key''\<rparr>
   \<noteq> \<lparr>model_id = ''gemini-2.0-flash-001'', model_info = Own 8192\<rparr>"
  by (simp add: getModel_def js_in_def js_get_def object_literal_def Object_prototype_def)

subsection \<open>The loop over the chunks\<close>

lemma stream_loop_flag: "stream_loop u cs h = (ys, Inr h') \<Longrightarrow> h' = h"
  by (induction u cs h arbitrary: ys rule: stream_loop.induct) (auto split: if_splits prod.splits)

lemma stream_loop_yields:
  "fst (stream_loop u cs h) =
     [ApiStreamTextChunk (u t). Inr (Some t) \<leftarrow> takeWhile (\<lambda>c. \<not> isl c) cs, t \<noteq> []]"
  by (induction u cs h rule: stream_loop.induct) (auto split: prod.splits)

lemma stream_loop_outcome:
  "snd (stream_loop u cs h) =
     (case dropWhile (\<lambda>c. \<not> isl c) cs of [] \<Rightarrow> Inr h | c # _ \<Rightarrow> Inl (projl c))"
  by (induction u cs h rule: stream_loop.induct) (auto split: prod.splits)

lemma stream_loop_append:
  "\<forall>c\<in>set pre. \<not> isl c \<Longrightarrow>
   stream_loop u (pre @ rest) h =
     (fst (stream_loop u pre h) @ fst (stream_loop u rest h), snd (stream_loop u rest h))"
  by (induction u pre h rule: stream_loop.induct) (auto split: prod.splits)

lemma stream_loop_texts: "\<exists>texts. fst (stream_loop u cs h) = map ApiStreamTextChunk texts"
proof (induction u cs h rule: stream_loop.induct)
  case (4 u t rest h)
  show ?case
  proof (cases "t = []")
    case True
    with 4 show ?thesis by simp
  next
    case False
    with 4 obtain texts where "fst (stream_loop u rest h) = map ApiStreamTextChunk texts" by auto
    then have "fst (stream_loop u (Inr (Some t) # rest) h) = map ApiStreamTextChunk (u t # texts)"
      using False by (cases "stream_loop u rest h") simp
    then show ?thesis by blast
  qed
qed simp_all

lemma to_event_fragments:
  "map to_event [ApiStreamTextChunk (u t). Inr (Some t) \<leftarrow> cs, t \<noteq> []] =
     [TextChunk (u t). Inr (Some t) \<leftarrow> cs, t \<noteq> []]"
  by (induction cs) (auto split: sum.splits option.splits)

subsection \<open>The two ways a run ends\<close>

text \<open>
  A run either throws after text chunks only, or it returns after the text chunks of the
  whole stream and one usage chunk. The flag \<open>hasError\<close> is still false whenever the loop
  is left normally, so the check after the loop never throws.
\<close>

lemma createMessage_cases:
  obtains (failed) texts err where
      "createMessage u call = \<lparr>yielded = map ApiStreamTextChunk texts, thrown = Some err\<rparr>"
  | (succeeded) result resp where
      "call = Inr result" "response result = Inr (Some resp)"
      "createMessage u call =
         \<lparr>yielded = fst (stream_loop u (stream result) False) @ [usage_of resp], thrown = None\<rparr>"
proof (cases call)
  case (Inl err)
  then have "createMessage u call = \<lparr>yielded = map ApiStreamTextChunk [], thrown = Some err\<rparr>"
    by (simp add: createMessage_def)
  then show ?thesis by (rule failed)
next
  case (Inr result)
  obtain ys r where loop: "stream_loop u (stream result) False = (ys, r)"
    by (cases "stream_loop u (stream result) False")
  obtain texts where texts: "ys = map ApiStreamTextChunk texts"
    using stream_loop_texts [of u "stream result" False] loop by auto
  show ?thesis
  proof (cases r)
    case (Inl err)
    with Inr loop texts
    have "createMessage u call = \<lparr>yielded = map ApiStreamTextChunk texts, thrown = Some err\<rparr>"
      by (simp add: createMessage_def)
    then show ?thesis by (rule failed)
  next
    case flag: (Inr hasError)
    with loop have nf: "hasError = False" using stream_loop_flag by blast
    show ?thesis
    proof (cases "stream_rejects result")
      case (Some err)
      with Inr loop texts flag
      have "createMessage u call = \<lparr>yielded = map ApiStreamTextChunk texts, thrown = Some err\<rparr>"
        by (simp add: createMessage_def)
      then show ?thesis by (rule failed)
    next
      case None
      with Inr loop flag nf have cm: "createMessage u call = after_stream ys (response result)"
        by (simp add: createMessage_def)
      show ?thesis
      proof (cases "thrown (after_stream ys (response result))")
        case (Some err)
        then have "after_stream ys (response result) = \<lparr>yielded = ys, thrown = Some err\<rparr>"
          by (auto simp: after_stream_def Let_def split: sum.splits option.splits if_splits)
        with cm texts show ?thesis by (auto intro: failed)
      next
        case nothrow: None
        then obtain resp where "response result = Inr (Some resp)"
          "after_stream ys (response result) = \<lparr>yielded = ys @ [usage_of resp], thrown = None\<rparr>"
          by (auto simp: after_stream_def Let_def split: sum.splits option.splits if_splits)
        with cm Inr loop show ?thesis by (auto intro: succeeded)
      qed
    qed
  qed
qed

lemma events_failed:
  "events \<lparr>yielded = map ApiStreamTextChunk texts, thrown = Some err\<rparr> = map TextChunk texts @ [Error err]"
  by (simp add: events_def)

lemma events_succeeded:
  "events \<lparr>yielded = map ApiStreamTextChunk texts @ [ApiStreamUsageChunk a b], thrown = None\<rparr>
     = map TextChunk texts @ [Usage a b]"
  by (simp add: events_def)

lemma no_terminal_in_texts: "filter is_terminal (map TextChunk texts) = []"
  by (induction texts) simp_all

lemma no_usage_in_texts: "filter is_Usage (map TextChunk texts) = []"
  by (induction texts) simp_all

lemma at_most_one_terminal:
  assumes "is_terminal t"
  shows "length (filter is_terminal (take n (map TextChunk texts @ [t]))) \<le> 1"
proof -
  have "length (filter is_terminal (take n (map TextChunk texts @ [t])))
          \<le> length (filter is_terminal (map TextChunk texts @ [t]))"
    by (metis append_take_drop_id filter_append length_append le_add1)
  also have "\<dots> = 1" using assms by (simp add: no_terminal_in_texts)
  finally show ?thesis .
qed

lemma createMessage_text_events:
  "filter (\<lambda>ev. \<not> is_terminal ev) (events (createMessage u (Inr result))) =
     map to_event (fst (stream_loop u (stream result) False))"
proof -
  obtain ys r where loop: "stream_loop u (stream result) False = (ys, r)"
    by (cases "stream_loop u (stream result) False")
  obtain texts where texts: "ys = map ApiStreamTextChunk texts"
    using stream_loop_texts [of u "stream result" False] loop by auto
  have keep: "filter (\<lambda>ev. \<not> is_terminal ev) (map TextChunk texts) = map TextChunk texts"
    by (induction texts) simp_all
  have "filter (\<lambda>ev. \<not> is_terminal ev) (events (createMessage u (Inr result))) = map TextChunk texts"
    using loop texts keep
    by (auto simp: createMessage_def after_stream_def events_def usage_of_def Let_def
             split: sum.splits option.splits)
  then show ?thesis using loop texts by simp
qed

subsection \<open>The claims about the event sequence\<close>

text \<open>
  The loop on a stream without a throwing chunk, and the backend answers for which a
  run returns.
\<close>

lemma stream_loop_no_exception:
  assumes "\<forall>c\<in>set cs. \<not> isl c"
  shows "stream_loop u cs h = ([ApiStreamTextChunk (u t). Inr (Some t) \<leftarrow> cs, t \<noteq> []], Inr h)"
proof -
  have tw: "takeWhile (\<lambda>c. \<not> isl c) cs = cs"
    using assms by (simp add: takeWhile_eq_all_conv)
  have dw: "dropWhile (\<lambda>c. \<not> isl c) cs = []"
    using assms by simp
  have "fst (stream_loop u cs h) = [ApiStreamTextChunk (u t). Inr (Some t) \<leftarrow> cs, t \<noteq> []]"
    using stream_loop_yields [of u cs h] by (simp only: tw)
  moreover have "snd (stream_loop u cs h) = Inr h"
    using stream_loop_outcome [of u cs h] by (simp only: dw list.case)
  ultimately show ?thesis by (cases "stream_loop u cs h") simp
qed

lemma stream_loop_normal_exit:
  assumes "snd (stream_loop u cs h) = Inr h'"
  shows "\<forall>c\<in>set cs. \<not> isl c"
proof -
  have "dropWhile (\<lambda>c. \<not> isl c) cs = []"
    using assms stream_loop_outcome [of u cs h] by (cases "dropWhile (\<lambda>c. \<not> isl c) cs") simp_all
  then show ?thesis by (simp add: dropWhile_eq_Nil_conv)
qed

lemma createMessage_returns_only_if:
  assumes "thrown (createMessage u call) = None"
  shows "\<exists>result resp.
           call = Inr result \<and> (\<forall>c\<in>set (stream result). \<not> isl c) \<and>
           stream_rejects result = None \<and> response result = Inr (Some resp) \<and>
           finishReason_of resp \<noteq> Some ''SAFETY'' \<and>
           finishReason_of resp \<noteq> Some ''RECITATION'' \<and>
           finishReason_of resp \<noteq> Some ''OTHER''"
proof (cases call)
  case (Inl err)
  with assms show ?thesis by (simp add: createMessage_def)
next
  case (Inr result)
  obtain ys r where loop: "stream_loop u (stream result) False = (ys, r)"
    by (cases "stream_loop u (stream result) False")
  from assms Inr loop obtain hasError where r: "r = Inr hasError"
    by (cases r) (simp_all add: createMessage_def)
  with loop have chunks: "\<forall>c\<in>set (stream result). \<not> isl c"
    using stream_loop_normal_exit [of u "stream result" False hasError] by simp
  from loop r have nf: "hasError = False" using stream_loop_flag by blast
  from assms Inr loop r have rej: "stream_rejects result = None"
    by (cases "stream_rejects result") (simp_all add: createMessage_def)
  with assms Inr loop r nf have after: "thrown (after_stream ys (response result)) = None"
    by (simp add: createMessage_def)
  then obtain resp where "response result = Inr (Some resp)"
      "finishReason_of resp \<noteq> Some ''SAFETY''"
      "finishReason_of resp \<noteq> Some ''RECITATION''"
      "finishReason_of resp \<noteq> Some ''OTHER''"
    by (auto simp: after_stream_def Let_def split: sum.splits option.splits if_splits)
  with Inr chunks rej show ?thesis by blast
qed

lemma createMessage_returns_if:
  assumes "\<forall>c\<in>set (stream result). \<not> isl c"
      and "stream_rejects result = None"
      and "response result = Inr (Some resp)"
      and "finishReason_of resp \<noteq> Some ''SAFETY''"
      and "finishReason_of resp \<noteq> Some ''RECITATION''"
      and "finishReason_of resp \<noteq> Some ''OTHER''"
  shows "createMessage u (Inr result) =
           \<lparr>yielded = [ApiStreamTextChunk (u t). Inr (Some t) \<leftarrow> stream result, t \<noteq> []] @ [usage_of resp],
            thrown = None\<rparr>"
  using assms(2-6)
  by (simp add: createMessage_def stream_loop_no_exception [OF assms(1)] after_stream_def)

text \<open>
  C3. A generation is successful (the generator returns without throwing) exactly when
  no chunk throws, the chunk stream does not reject, the response arrives and its
  finish reason is none of the three blocked ones. For every such backend answer the
  run does not throw, and its event sequence is the text events of the stream followed
  by one \<open>Usage\<close> event: exactly one \<open>Usage\<close>, in last place, nothing after it. Each of its
  counters is the backend's counter, or zero when the usage metadata or that counter is
  missing; a missing counter never suppresses the event or ends the run in an error.
\<close>

theorem createMessage_success_usage_last:
  "(thrown (createMessage u call) = None \<longrightarrow>
      (\<exists>result resp.
         call = Inr result \<and> (\<forall>c\<in>set (stream result). \<not> isl c) \<and>
         stream_rejects result = None \<and> response result = Inr (Some resp) \<and>
         finishReason_of resp \<noteq> Some ''SAFETY'' \<and>
         finishReason_of resp \<noteq> Some ''RECITATION'' \<and>
         finishReason_of resp \<noteq> Some ''OTHER'')) \<and>
   (\<forall>result resp.
      call = Inr result \<and> (\<forall>c\<in>set (stream result). \<not> isl c) \<and>
      stream_rejects result = None \<and> response result = Inr (Some resp) \<and>
      finishReason_of resp \<noteq> Some ''SAFETY'' \<and>
      finishReason_of resp \<noteq> Some ''RECITATION'' \<and>
      finishReason_of resp \<noteq> Some ''OTHER'' \<longrightarrow>
      thrown (createMessage u call) = None \<and>
      events (createMessage u call) =
        [TextChunk (u t). Inr (Some t) \<leftarrow> stream result, t \<noteq> []] @
        [Usage (case usageMetadata resp of None \<Rightarrow> 0
                | Some m \<Rightarrow> (case promptTokenCount m of None \<Rightarrow> 0 | Some n \<Rightarrow> n))
               (case usageMetadata resp of None \<Rightarrow> 0
                | Some m \<Rightarrow> (case candidatesTokenCount m of None \<Rightarrow> 0 | Some n \<Rightarrow> n))] \<and>
      length (filter is_Usage (events (createMessage u call))) = 1 \<and>
      is_Usage (last (events (createMessage u call))))"
proof (intro conjI impI allI)
  assume "thrown (createMessage u call) = None"
  then show "\<exists>result resp.
         call = Inr result \<and> (\<forall>c\<in>set (stream result). \<not> isl c) \<and>
         stream_rejects result = None \<and> response result = Inr (Some resp) \<and>
         finishReason_of resp \<noteq> Some ''SAFETY'' \<and>
         finishReason_of resp \<noteq> Some ''RECITATION'' \<and>
         finishReason_of resp \<noteq> Some ''OTHER''"
    by (rule createMessage_returns_only_if)
next
  fix result resp
  assume A: "call = Inr result \<and> (\<forall>c\<in>set (stream result). \<not> isl c) \<and>
      stream_rejects result = None \<and> response result = Inr (Some resp) \<and>
      finishReason_of resp \<noteq> Some ''SAFETY'' \<and>
      finishReason_of resp \<noteq> Some ''RECITATION'' \<and>
      finishReason_of resp \<noteq> Some ''OTHER''"
  then have run: "createMessage u call =
      \<lparr>yielded = [ApiStreamTextChunk (u t). Inr (Some t) \<leftarrow> stream result, t \<noteq> []] @ [usage_of resp],
       thrown = None\<rparr>"
    using createMessage_returns_if [of result resp u] by simp
  show "thrown (createMessage u call) = None" unfolding run by simp
  have frag: "filter is_Usage [TextChunk (u t). Inr (Some t) \<leftarrow> cs, t \<noteq> []] = []" for cs
    by (induction cs) (auto split: sum.splits option.splits)
  show ev: "events (createMessage u call) =
        [TextChunk (u t). Inr (Some t) \<leftarrow> stream result, t \<noteq> []] @
        [Usage (case usageMetadata resp of None \<Rightarrow> 0
                | Some m \<Rightarrow> (case promptTokenCount m of None \<Rightarrow> 0 | Some n \<Rightarrow> n))
               (case usageMetadata resp of None \<Rightarrow> 0
                | Some m \<Rightarrow> (case candidatesTokenCount m of None \<Rightarrow> 0 | Some n \<Rightarrow> n))]"
    unfolding run events_def usage_of_def
    by (simp only: generator_run.simps map_append to_event_fragments option.case
                   list.map to_event.simps append_Nil2)
  show "length (filter is_Usage (events (createMessage u call))) = 1"
    unfolding ev by (simp only: filter_append frag) simp
  show "is_Usage (last (events (createMessage u call)))"
    unfolding ev by simp
qed

theorem createMessage_success_usage_last_witness:
  "thrown (createMessage (\<lambda>s. s)
      (Inr \<lparr>stream = [Inr (Some ''Hel''), Inr (Some ''lo!'')], stream_rejects = None,
            response = Inr (Some \<lparr>candidates = Some [\<lparr>finishReason = Some ''STOP''\<rparr>],
              usageMetadata = Some \<lparr>promptTokenCount = Some 5, candidatesTokenCount = None\<rparr>\<rparr>)\<rparr>)) = None \<and>
   events (createMessage (\<lambda>s. s)
      (Inr \<lparr>stream = [Inr (Some ''Hel''), Inr (Some ''lo!'')], stream_rejects = None,
            response = Inr (Some \<lparr>candidates = Some [\<lparr>finishReason = Some ''STOP''\<rparr>],
              usageMetadata = Some \<lparr>promptTokenCount = Some 5, candidatesTokenCount = None\<rparr>\<rparr>)\<rparr>))
     = [TextChunk ''Hel'', TextChunk ''lo!'', Usage 5 0] \<and>
   length (filter is_Usage (events (createMessage (\<lambda>s. s)
      (Inr \<lparr>stream = [Inr (Some ''Hel''), Inr (Some ''lo!'')], stream_rejects = None,
            response = Inr (Some \<lparr>candidates = Some [\<lparr>finishReason = Some ''STOP''\<rparr>],
              usageMetadata = Some \<lparr>promptTokenCount = Some 5, candidatesTokenCount = None\<rparr>\<rparr>)\<rparr>)))) = 1"
  (is "thrown (createMessage ?u (Inr ?R)) = None \<and> _ \<and> _")
proof -
  let ?resp = "\<lparr>candidates = Some [\<lparr>finishReason = Some ''STOP''\<rparr>],
              usageMetadata = Some \<lparr>promptTokenCount = Some 5, candidatesTokenCount = None\<rparr>\<rparr>"
  have h: "Inr ?R = Inr ?R \<and> (\<forall>c\<in>set (stream ?R). \<not> isl c) \<and>
      stream_rejects ?R = None \<and> response ?R = Inr (Some ?resp) \<and>
      finishReason_of ?resp \<noteq> Some ''SAFETY'' \<and>
      finishReason_of ?resp \<noteq> Some ''RECITATION'' \<and>
      finishReason_of ?resp \<noteq> Some ''OTHER''"
    by (simp add: finishReason_of_def)
  from createMessage_success_usage_last [of ?u "Inr ?R", THEN conjunct2, rule_format, OF h]
  show ?thesis by simp
qed

text \<open>Scenario A of the specification.\<close>

lemma createMessage_scenario_A:
  "events (createMessage (\<lambda>s. s)
      (Inr \<lparr>stream = [Inr (Some ''Hel''), Inr (Some ''lo!'')], stream_rejects = None,
            response = Inr (Some \<lparr>candidates = Some [\<lparr>finishReason = Some ''STOP''\<rparr>],
              usageMetadata = Some \<lparr>promptTokenCount = Some 5, candidatesTokenCount = Some 2\<rparr>\<rparr>)\<rparr>))
     = [TextChunk ''Hel'', TextChunk ''lo!'', Usage 5 2]"
  by (simp add: createMessage_def after_stream_def finishReason_of_def usage_of_def events_def)

text \<open>
  C4. The event sequence of a run, and every prefix of it (what a caller has seen when it
  stops reading), contains at most one terminal event, and no sequence contains both a
  \<open>Usage\<close> and an \<open>Error\<close>.
\<close>

theorem createMessage_one_terminal:
  "length (filter is_terminal (take n (events (createMessage u call)))) \<le> 1 \<and>
   \<not> ((\<exists>a b. Usage a b \<in> set (events (createMessage u call))) \<and>
      (\<exists>err. Error err \<in> set (events (createMessage u call))))"
proof (cases u call rule: createMessage_cases)
  case (failed texts err)
  have ev: "events (createMessage u call) = map TextChunk texts @ [Error err]"
    unfolding failed by (rule events_failed)
  have "length (filter is_terminal (take n (events (createMessage u call)))) \<le> 1"
    unfolding ev by (rule at_most_one_terminal) simp
  moreover have "\<not> (\<exists>a b. Usage a b \<in> set (events (createMessage u call)))"
    unfolding ev by auto
  ultimately show ?thesis by blast
next
  case (succeeded result resp)
  obtain texts where texts: "fst (stream_loop u (stream result) False) = map ApiStreamTextChunk texts"
    using stream_loop_texts by blast
  obtain a b where us: "usage_of resp = ApiStreamUsageChunk a b"
    by (simp add: usage_of_def)
  have ev: "events (createMessage u call) = map TextChunk texts @ [Usage a b]"
    unfolding succeeded(3) texts us by (rule events_succeeded)
  have "length (filter is_terminal (take n (events (createMessage u call)))) \<le> 1"
    unfolding ev by (rule at_most_one_terminal) simp
  moreover have "\<not> (\<exists>err. Error err \<in> set (events (createMessage u call)))"
    unfolding ev by auto
  ultimately show ?thesis by blast
qed

text \<open>
  C5. In every stream in which decoding some chunk throws, the run ends at the first such
  chunk with that chunk's exception: the events are the text events of the chunks
  before it followed by the \<open>Error\<close>, whatever chunks come after it. No chunk after the
  failing one contributes an event.
\<close>

theorem createMessage_chunk_exception_aborts:
  assumes "\<exists>c\<in>set (stream result). isl c"
  shows "\<exists>pre err post.
           stream result = pre @ Inl err # post \<and> (\<forall>c\<in>set pre. \<not> isl c) \<and>
           createMessage u (Inr result) =
             \<lparr>yielded = [ApiStreamTextChunk (u t). Inr (Some t) \<leftarrow> pre, t \<noteq> []], thrown = Some err\<rparr> \<and>
           events (createMessage u (Inr result)) =
             [TextChunk (u t). Inr (Some t) \<leftarrow> pre, t \<noteq> []] @ [Error err]"
proof -
  from split_list_first_prop [OF assms]
  obtain pre c post where split: "stream result = pre @ c # post" "isl c" "\<forall>y\<in>set pre. \<not> isl y"
    by blast
  from split(2) obtain err where c: "c = Inl err" by (cases c) simp_all
  have tw: "takeWhile (\<lambda>c. \<not> isl c) pre = pre"
    using split(3) by (simp add: takeWhile_eq_all_conv)
  have "stream_loop u (stream result) False = (fst (stream_loop u pre False), Inl err)"
    unfolding split(1) c using stream_loop_append [OF split(3), of u "Inl err # post" False] by simp
  then have run: "createMessage u (Inr result) =
      \<lparr>yielded = [ApiStreamTextChunk (u t). Inr (Some t) \<leftarrow> pre, t \<noteq> []], thrown = Some err\<rparr>"
    by (simp add: createMessage_def stream_loop_yields tw)
  have "events (createMessage u (Inr result)) =
           [TextChunk (u t). Inr (Some t) \<leftarrow> pre, t \<noteq> []] @ [Error err]"
    unfolding run events_def by (simp only: generator_run.simps to_event_fragments option.case)
  with run split(1,3) c show ?thesis by blast
qed

theorem createMessage_chunk_exception_aborts_witness:
  "(\<exists>c\<in>set (stream \<lparr>stream = [Inr (Some ''Hel''), Inl ''malformed chunk'', Inr (Some ''lo!'')],
        stream_rejects = None,
        response = Inr (Some \<lparr>candidates = Some [\<lparr>finishReason = Some ''STOP''\<rparr>], usageMetadata = None\<rparr>)\<rparr>).
      isl c) \<and>
   (\<exists>pre err post.
      stream \<lparr>stream = [Inr (Some ''Hel''), Inl ''malformed chunk'', Inr (Some ''lo!'')],
        stream_rejects = None,
        response = Inr (Some \<lparr>candidates = Some [\<lparr>finishReason = Some ''STOP''\<rparr>], usageMetadata = None\<rparr>)\<rparr>
        = pre @ Inl err # post \<and>
      events (createMessage (\<lambda>s. s)
        (Inr \<lparr>stream = [Inr (Some ''Hel''), Inl ''malformed chunk'', Inr (Some ''lo!'')],
           stream_rejects = None,
           response = Inr (Some \<lparr>candidates = Some [\<lparr>finishReason = Some ''STOP''\<rparr>], usageMetadata = None\<rparr>)\<rparr>))
        = [TextChunk t. Inr (Some t) \<leftarrow> pre, t \<noteq> []] @ [Error err]) \<and>
   events (createMessage (\<lambda>s. s)
     (Inr \<lparr>stream = [Inr (Some ''Hel''), Inl ''malformed chunk'', Inr (Some ''lo!'')],
        stream_rejects = None,
        response = Inr (Some \<lparr>candidates = Some [\<lparr>finishReason = Some ''STOP''\<rparr>], usageMetadata = None\<rparr>)\<rparr>))
     = [TextChunk ''Hel'', Error ''malformed chunk'']"
  (is "(\<exists>c\<in>set (stream ?R). isl c) \<and> _ \<and> _")
proof -
  have h: "\<exists>c\<in>set (stream ?R). isl c" by simp
  have e: "events (createMessage (\<lambda>s. s) (Inr ?R)) = [TextChunk ''Hel'', Error ''malformed chunk'']"
    by (simp add: createMessage_def events_def)
  from createMessage_chunk_exception_aborts [OF h, of "\<lambda>s. s"]
  have "\<exists>pre err post. stream ?R = pre @ Inl err # post \<and>
      events (createMessage (\<lambda>s. s) (Inr ?R)) = [TextChunk t. Inr (Some t) \<leftarrow> pre, t \<noteq> []] @ [Error err]"
    by blast
  with h e show ?thesis by blast
qed

lemma no_empty_fragment:
  assumes "\<And>s. s \<noteq> [] \<Longrightarrow> u s \<noteq> []"
  shows "TextChunk [] \<notin> set [TextChunk (u t). Inr (Some t) \<leftarrow> cs, t \<noteq> []]"
proof -
  have ne: "[] \<noteq> u s" if "s \<noteq> []" for s
    using assms [OF that] by simp
  show ?thesis
    using ne by (induction cs) (auto split: sum.splits option.splits)
qed

text \<open>
  C8. Provided \<open>unescapeGeminiContent\<close> does not turn a non-empty string into the empty
  one, no \<open>TextChunk\<close> with empty text is emitted. The text events are exactly the
  unescaped non-empty texts of the chunks before the first failing one, in order: a
  chunk whose text is empty or absent contributes no event.
\<close>

theorem createMessage_no_empty_text:
  assumes "\<And>s. s \<noteq> [] \<Longrightarrow> u s \<noteq> []"
  shows "TextChunk [] \<notin> set (events (createMessage u call)) \<and>
         filter (\<lambda>ev. \<not> is_terminal ev) (events (createMessage u call)) =
           (case call of
              Inl err \<Rightarrow> []
            | Inr result \<Rightarrow>
                [TextChunk (u t). Inr (Some t) \<leftarrow> takeWhile (\<lambda>c. \<not> isl c) (stream result), t \<noteq> []])"
proof -
  have frag: "filter (\<lambda>ev. \<not> is_terminal ev) (events (createMessage u call)) =
           (case call of
              Inl err \<Rightarrow> []
            | Inr result \<Rightarrow>
                [TextChunk (u t). Inr (Some t) \<leftarrow> takeWhile (\<lambda>c. \<not> isl c) (stream result), t \<noteq> []])"
  proof (cases call)
    case (Inl err)
    then show ?thesis by (simp add: createMessage_def events_def)
  next
    case (Inr result)
    then show ?thesis
      by (simp only: createMessage_text_events stream_loop_yields to_event_fragments sum.case)
  qed
  have "TextChunk [] \<notin> set (filter (\<lambda>ev. \<not> is_terminal ev) (events (createMessage u call)))"
  proof (cases call)
    case (Inl err)
    then show ?thesis unfolding frag by simp
  next
    case (Inr result)
    have "filter (\<lambda>ev. \<not> is_terminal ev) (events (createMessage u (Inr result))) =
            [TextChunk (u t). Inr (Some t) \<leftarrow> takeWhile (\<lambda>c. \<not> isl c) (stream result), t \<noteq> []]"
      using frag unfolding Inr by (simp only: sum.case)
    then show ?thesis unfolding Inr by (simp only: no_empty_fragment [OF assms] not_False_eq_True)
  qed
  then have "TextChunk [] \<notin> set (events (createMessage u call))" by simp
  with frag show ?thesis by blast
qed

theorem createMessage_no_empty_text_witness:
  "events (createMessage (\<lambda>s. s)
      (Inr \<lparr>stream = [Inr (Some ''Hel''), Inr (Some []), Inr None, Inr (Some ''lo!'')], stream_rejects = None,
            response = Inr (Some \<lparr>candidates = Some [\<lparr>finishReason = Some ''STOP''\<rparr>],
              usageMetadata = Some \<lparr>promptTokenCount = Some 5, candidatesTokenCount = Some 2\<rparr>\<rparr>)\<rparr>))
     = [TextChunk ''Hel'', TextChunk ''lo!'', Usage 5 2] \<and>
   TextChunk [] \<notin> set (events (createMessage (\<lambda>s. s)
      (Inr \<lparr>stream = [Inr (Some ''Hel''), Inr (Some []), Inr None, Inr (Some ''lo!'')], stream_rejects = None,
            response = Inr (Some \<lparr>candidates = Some [\<lparr>finishReason = Some ''STOP''\<rparr>],
              usageMetadata = Some \<lparr>promptTokenCount = Some 5, candidatesTokenCount = Some 2\<rparr>\<rparr>)\<rparr>)))"
  (is "events (createMessage ?u ?A) = _ \<and> _")
proof -
  have h: "s \<noteq> [] \<Longrightarrow> ?u s \<noteq> []" for s :: string by simp
  have e: "events (createMessage ?u ?A) = [TextChunk ''Hel'', TextChunk ''lo!'', Usage 5 2]"
    by (simp add: createMessage_def after_stream_def finishReason_of_def usage_of_def events_def)
  show ?thesis
    using createMessage_no_empty_text [of ?u ?A, OF h, THEN conjunct1] e by simp
qed

text \<open>
  C2, as the code has it. When no text was produced (every chunk decodes to an absent or
  empty text), the stream ends normally and the response arrives, the event sequence is
  a single event decided by the finish reason: an \<open>Error\<close> naming the block reason for
  \<open>SAFETY\<close>, \<open>RECITATION\<close> and \<open>OTHER\<close>, and the \<open>Usage\<close> event for every other finish
  reason, length truncation included.
\<close>

theorem createMessage_blocked_single_error:
  assumes "\<forall>c\<in>set (stream result). c = Inr None \<or> c = Inr (Some [])"
      and "stream_rejects result = None"
      and "response result = Inr (Some resp)"
  shows "events (createMessage u (Inr result)) =
     (if finishReason_of resp = Some ''SAFETY''
      then [Error ''Content generation was blocked for safety reasons'']
      else if finishReason_of resp = Some ''RECITATION''
      then [Error ''Content generation was blocked due to potential copyright issues'']
      else if finishReason_of resp = Some ''OTHER''
      then [Error ''Content generation was blocked for other reasons'']
      else [Usage (case usageMetadata resp of None \<Rightarrow> 0
                   | Some m \<Rightarrow> (case promptTokenCount m of None \<Rightarrow> 0 | Some n \<Rightarrow> n))
                  (case usageMetadata resp of None \<Rightarrow> 0
                   | Some m \<Rightarrow> (case candidatesTokenCount m of None \<Rightarrow> 0 | Some n \<Rightarrow> n))])"
proof -
  have "stream_loop u cs h = ([], Inr h)" if "\<forall>c\<in>set cs. c = Inr None \<or> c = Inr (Some [])" for cs h
    using that by (induction u cs h rule: stream_loop.induct) auto
  then have "stream_loop u (stream result) False = ([], Inr False)"
    using assms(1) by blast
  then show ?thesis
    using assms(2,3)
    by (simp add: createMessage_def after_stream_def events_def usage_of_def Let_def)
qed

theorem createMessage_blocked_single_error_witness:
  "events (createMessage (\<lambda>s. s)
      (Inr \<lparr>stream = [], stream_rejects = None,
            response = Inr (Some \<lparr>candidates = Some [\<lparr>finishReason = Some ''SAFETY''\<rparr>],
                                  usageMetadata = None\<rparr>)\<rparr>))
     = [Error ''Content generation was blocked for safety reasons'']"
  (is "events (createMessage ?u (Inr ?R)) = _")
proof -
  have h1: "\<forall>c\<in>set (stream ?R). c = Inr None \<or> c = Inr (Some [])" by simp
  have h2: "stream_rejects ?R = None" by simp
  have h3: "response ?R = Inr (Some \<lparr>candidates = Some [\<lparr>finishReason = Some ''SAFETY''\<rparr>],
                                  usageMetadata = None\<rparr>)" by simp
  show ?thesis
    using createMessage_blocked_single_error [OF h1 h2 h3, of ?u] by (simp add: finishReason_of_def)
qed

theorem createMessage_length_truncated_counterexample:
  "events (createMessage (\<lambda>s. s)
      (Inr \<lparr>stream = [], stream_rejects = None,
            response = Inr (Some \<lparr>candidates = Some [\<lparr>finishReason = Some ''LENGTH''\<rparr>],
                                  usageMetadata = None\<rparr>)\<rparr>))
     = [Usage 0 0] \<and>
   (\<forall>err. events (createMessage (\<lambda>s. s)
      (Inr \<lparr>stream = [], stream_rejects = None,
            response = Inr (Some \<lparr>candidates = Some [\<lparr>finishReason = Some ''LENGTH''\<rparr>],
                                  usageMetadata = None\<rparr>)\<rparr>))
     \<noteq> [Error err])"
  by (simp add: createMessage_def after_stream_def finishReason_of_def usage_of_def events_def)

section \<open>Properties of the retry wrapper\<close>

text \<open>
  The attempts of a wrapped call are numbered from the starting attempt without gaps.
  Every attempt but the last failed with a retryable error before it yielded anything,
  and what the caller receives is the event sequence of the last attempt alone.
\<close>

lemma retry_from_trace:
  "0 < budget \<Longrightarrow>
   a < attempts (retry_from c g a budget) \<and>
   attempts (retry_from c g a budget) \<le> a + budget \<and>
   (\<forall>k. a \<le> k \<and> Suc k < attempts (retry_from c g a budget) \<longrightarrow>
        yielded (g k) = [] \<and> (\<exists>err. thrown (g k) = Some err \<and> retryable (c err))) \<and>
   forwarded (retry_from c g a budget) = events (g (attempts (retry_from c g a budget) - 1))"
proof (induction budget arbitrary: a)
  case 0
  then show ?case by simp
next
  case (Suc budget)
  show ?case
  proof (cases "thrown (g a)")
    case None
    then show ?thesis by (auto simp: Let_def)
  next
    case (Some err)
    show ?thesis
    proof (cases "yielded (g a) = [] \<and> retryable (c err) \<and> budget \<noteq> 0")
      case False
      with Some show ?thesis by (auto simp: Let_def)
    next
      case True
      then have eq: "retry_from c g a (Suc budget) = retry_from c g (Suc a) budget"
        using Some by (simp add: Let_def)
      from True have "0 < budget" by simp
      note IH = Suc.IH [OF this, of "Suc a"]
      have "yielded (g k) = [] \<and> (\<exists>err. thrown (g k) = Some err \<and> retryable (c err))"
        if "a \<le> k" "Suc k < attempts (retry_from c g (Suc a) budget)" for k
      proof (cases "k = a")
        case True
        with \<open>yielded (g a) = [] \<and> retryable (c err) \<and> budget \<noteq> 0\<close> Some show ?thesis by simp
      next
        case False
        with that have "Suc a \<le> k" by simp
        with IH that show ?thesis by blast
      qed
      with IH show ?thesis unfolding eq by auto
    qed
  qed
qed

text \<open>
  The retry scenario of the specification: two rate-limited attempts that forward
  nothing, then a success; the third attempt's events reach the caller.
\<close>

lemma withRetry_retries_before_first_event:
  "withRetry (\<lambda>err. Retryable_RateLimited) 3
      (\<lambda>n. if n < 2 then \<lparr>yielded = [], thrown = Some ''rate limited''\<rparr>
            else \<lparr>yielded = [ApiStreamTextChunk ''Hi'', ApiStreamUsageChunk 5 2], thrown = None\<rparr>)
     = \<lparr>forwarded = [TextChunk ''Hi'', Usage 5 2], attempts = 3\<rparr>"
  by (simp add: withRetry_def numeral_3_eq_3 Let_def events_def)

text \<open>
  C1. A failure is retried only if it occurs before the first event of its attempt has
  been forwarded: every attempt that was followed by another one had failed without
  yielding an event. Once an attempt has forwarded at least one event, its failure is
  forwarded as the terminal \<open>Error\<close> after those events, and that attempt is the last:
  no further attempt is made.
\<close>

theorem withRetry_no_retry_after_forward:
  "(\<forall>k. Suc k < attempts (withRetry classify maxAttempts generate) \<longrightarrow>
        yielded (generate k) = [] \<and> thrown (generate k) \<noteq> None) \<and>
   (\<forall>n err. n < attempts (withRetry classify maxAttempts generate) \<and>
        yielded (generate n) \<noteq> [] \<and> thrown (generate n) = Some err \<longrightarrow>
        attempts (withRetry classify maxAttempts generate) = Suc n \<and>
        forwarded (withRetry classify maxAttempts generate) =
          map to_event (yielded (generate n)) @ [Error err])"
proof (cases maxAttempts)
  case 0
  then show ?thesis by (simp add: withRetry_def)
next
  case (Suc m)
  then have pos: "0 < maxAttempts" by simp
  let ?R = "withRetry classify maxAttempts generate"
  note T = retry_from_trace [OF pos, of 0 classify generate, folded withRetry_def]
  have first: "yielded (generate k) = [] \<and> thrown (generate k) \<noteq> None" if "Suc k < attempts ?R" for k
    using T that by auto
  have second: "attempts ?R = Suc n \<and> forwarded ?R = map to_event (yielded (generate n)) @ [Error err]"
    if "n < attempts ?R" "yielded (generate n) \<noteq> []" "thrown (generate n) = Some err" for n err
  proof -
    from first [of n] that(2) have "\<not> Suc n < attempts ?R" by blast
    with that(1) have last: "attempts ?R = Suc n" by simp
    with T have "forwarded ?R = events (generate n)" by simp
    with that(3) last show ?thesis by (simp add: events_def)
  qed
  from first second show ?thesis by blast
qed

text \<open>
  Scenario C of the specification: one text fragment, then a transport fault, with a
  budget of three attempts. One attempt is made.
\<close>

theorem withRetry_no_retry_after_forward_witness:
  "attempts (withRetry (\<lambda>err. Retryable_Transport) 3
      (\<lambda>n. \<lparr>yielded = [ApiStreamTextChunk ''Hel''], thrown = Some ''connection dropped''\<rparr>)) = 1 \<and>
   forwarded (withRetry (\<lambda>err. Retryable_Transport) 3
      (\<lambda>n. \<lparr>yielded = [ApiStreamTextChunk ''Hel''], thrown = Some ''connection dropped''\<rparr>))
     = [TextChunk ''Hel'', Error ''connection dropped'']"
  (is "attempts ?R = 1 \<and> _")
proof -
  have a: "0 < attempts ?R"
    by (simp add: withRetry_def numeral_3_eq_3 Let_def)
  show ?thesis
    using withRetry_no_retry_after_forward
      [of "\<lambda>err. Retryable_Transport" 3
          "\<lambda>n. \<lparr>yielded = [ApiStreamTextChunk ''Hel''], thrown = Some ''connection dropped''\<rparr>",
       THEN conjunct2, rule_format, of 0 "''connection dropped''"] a
    by simp
qed

section \<open>Properties of the file-access gate\<close>

lemma filterPaths_filter: "filterPaths P c paths = filter (validateAccess P c) paths"
  unfolding filterPaths_def by (induction paths) simp_all

text \<open>
  C9. When no \<open>.clineignore\<close> file exists (\<open>clineIgnoreExists\<close> is false), \<open>validateAccess\<close>
  returns true for every path: the gate fails open.
\<close>

theorem validateAccess_no_ignore_file:
  "\<not> clineIgnoreExists c \<Longrightarrow> validateAccess P c filePath = True"
  by (simp add: validateAccess_def)

theorem validateAccess_no_ignore_file_witness:
  "\<not> clineIgnoreExists \<lparr>cwd = ''/w'', ignoreInstance = (\<lambda>p. Inr True), clineIgnoreExists = False\<rparr>
   \<and> validateAccess \<lparr>path_resolve = (\<lambda>a b. a @ ''/'' @ b), path_relative = (\<lambda>a b. drop (Suc (length a)) b),
                      toPosix = (\<lambda>s. s)\<rparr>
        \<lparr>cwd = ''/w'', ignoreInstance = (\<lambda>p. Inr True), clineIgnoreExists = False\<rparr> ''secret.env'' = True"
  using validateAccess_no_ignore_file
    [of "\<lparr>cwd = ''/w'', ignoreInstance = (\<lambda>p. Inr True), clineIgnoreExists = False\<rparr>"
        "\<lparr>path_resolve = (\<lambda>a b. a @ ''/'' @ b), path_relative = (\<lambda>a b. drop (Suc (length a)) b),
          toPosix = (\<lambda>s. s)\<rparr>" "''secret.env''"]
  by simp

text \<open>
  C10. \<open>filterPaths\<close> returns exactly the paths of its input for which \<open>validateAccess\<close>
  returns true, in the input's order: the result is the filtered input, hence a
  subsequence of it in which no path is added, duplicated or reordered.
\<close>

theorem filterPaths_exact_sublist:
  "filterPaths P c paths = filter (validateAccess P c) paths
   \<and> subseq (filterPaths P c paths) paths
   \<and> set (filterPaths P c paths) = {p \<in> set paths. validateAccess P c p}
   \<and> count_list (filterPaths P c paths) p = (if validateAccess P c p then count_list paths p else 0)"
proof -
  have eq: "filterPaths P c paths = filter (validateAccess P c) paths"
    by (rule filterPaths_filter)
  have cnt: "count_list (filter Q xs) p = (if Q p then count_list xs p else 0)" for Q :: "string \<Rightarrow> bool" and xs
    by (induction xs) auto
  show ?thesis
    unfolding eq using cnt [of "validateAccess P c" paths] by auto
qed

end
